theory Spec2Isabelle
  imports Complex_Main
begin

section \<open>Multi-view capture of an STL scene\<close>

text \<open>
  The development follows \<^verbatim>\<open>captureMultiViews\<close> of the scene component in its
  36-view revision (18 orientations, a global and a local block), together with the view
  labels of \<^verbatim>\<open>App.tsx\<close>, which are the labels of these 36 views. The repository also
  holds an earlier revision of the component, with six views at one distance (1.5 times the
  fit distance); target resolution, fit distance, snapshot, loop and cleanup are the same
  there. In the capture routine JavaScript numbers are taken as real numbers: rounding,
  overflow and the values Infinity and NaN are outside that reading, so \<open>x / 0\<close> (here only
  \<open>tan (fov / 2) = 0\<close>, a field of view that is a multiple of 360 degrees) is read as \<open>0\<close>
  where JavaScript has a non-finite value. The fit distance is given a second reading, as a
  JavaScript number with the range of a double (overflow to Infinity, underflow to zero, NaN),
  and the two readings are related where every intermediate result stays in that range. The
  renderer carries a state of its own, which every render and every encoding may change. The
  delay before each render is not modelled.
\<close>

subsection \<open>Vector3\<close>

datatype vec3 = Vec3 (vx: real) (vy: real) (vz: real)

definition vadd :: "vec3 \<Rightarrow> vec3 \<Rightarrow> vec3" where
  \<comment> \<open>\<^verbatim>\<open>a.add(b)\<close>\<close>
  "vadd a b = Vec3 (vx a + vx b) (vy a + vy b) (vz a + vz b)"

definition vsub :: "vec3 \<Rightarrow> vec3 \<Rightarrow> vec3" where
  \<comment> \<open>\<^verbatim>\<open>subVectors(a, b)\<close>\<close>
  "vsub a b = Vec3 (vx a - vx b) (vy a - vy b) (vz a - vz b)"

definition multiplyScalar :: "vec3 \<Rightarrow> real \<Rightarrow> vec3" where
  "multiplyScalar v s = Vec3 (vx v * s) (vy v * s) (vz v * s)"

definition vlength :: "vec3 \<Rightarrow> real" where
  \<comment> \<open>\<^verbatim>\<open>v.length()\<close>\<close>
  "vlength v = sqrt (vx v * vx v + vy v * vy v + vz v * vz v)"

definition divideScalar :: "vec3 \<Rightarrow> real \<Rightarrow> vec3" where
  "divideScalar v s = multiplyScalar v (1 / s)"

definition normalize_v :: "vec3 \<Rightarrow> vec3" where
  \<comment> \<open>\<^verbatim>\<open>v.normalize()\<close> is \<^verbatim>\<open>v.divideScalar(v.length() || 1)\<close>\<close>
  "normalize_v v = divideScalar v (if vlength v = 0 then 1 else vlength v)"

definition cross :: "vec3 \<Rightarrow> vec3 \<Rightarrow> vec3" where
  "cross a b = Vec3 (vy a * vz b - vz a * vy b) (vz a * vx b - vx a * vz b)
                    (vx a * vy b - vy a * vx b)"

definition parallel :: "vec3 \<Rightarrow> vec3 \<Rightarrow> bool" where
  \<comment> \<open>parallel or anti-parallel: the two vectors span no plane\<close>
  "parallel a b = (cross a b = Vec3 0 0 0)"

subsection \<open>Box3 and the scene graph\<close>

datatype box3 = Box3 (bmin: vec3) (bmax: vec3)

definition isEmpty :: "box3 \<Rightarrow> bool" where
  "isEmpty b = (vx (bmax b) < vx (bmin b) \<or> vy (bmax b) < vy (bmin b) \<or> vz (bmax b) < vz (bmin b))"

definition getCenter :: "box3 \<Rightarrow> vec3" where
  "getCenter b = (if isEmpty b then Vec3 0 0 0 else multiplyScalar (vadd (bmin b) (bmax b)) 0.5)"

definition getSize :: "box3 \<Rightarrow> vec3" where
  "getSize b = (if isEmpty b then Vec3 0 0 0 else vsub (bmax b) (bmin b))"

text \<open>
  An object of the scene graph: whether it is a \<^verbatim>\<open>THREE.Mesh\<close>, its name, the
  world-space box that \<^verbatim>\<open>Box3.setFromObject\<close> computes for it, and its children.
\<close>

datatype object3d =
  Object3D (isMesh: bool) (name: string) (worldBox: box3) (children: "object3d list")

text \<open>\<^verbatim>\<open>scene.traverse(callback)\<close> visits the object, then each child's subtree in order.\<close>

fun traverse :: "object3d \<Rightarrow> object3d list" where
  "traverse (Object3D m n b cs) = Object3D m n b cs # concat (map traverse cs)"

definition targetMesh :: "object3d \<Rightarrow> object3d option" where
  \<comment> \<open>each traversal overwrites the variable at every match, so the last match stays\<close>
  "targetMesh scene =
     (let t = foldl (\<lambda>t child. if isMesh child \<and> name child = ''target-mesh'' then Some child else t)
                None (traverse scene)
      in if t = None
         then foldl (\<lambda>t child. if isMesh child then Some child else t) None (traverse scene)
         else t)"

subsection \<open>Fit distance\<close>

definition Math_max :: "real \<Rightarrow> real \<Rightarrow> real \<Rightarrow> real" where
  "Math_max a b c = max a (max b c)"

definition exactFitDist :: "box3 \<Rightarrow> real \<Rightarrow> real" where
  "exactFitDist box fov_deg =
     (let size = getSize box;
          maxDim = Math_max (vx size) (vy size) (vz size);
          fov = fov_deg * (pi / 180)
      in \<bar>(maxDim / 2) / tan (fov / 2)\<bar>)"

definition center :: "object3d \<Rightarrow> vec3" where
  "center scene = (case targetMesh scene of None \<Rightarrow> Vec3 0 0 0 | Some m \<Rightarrow> getCenter (worldBox m))"

definition fitDistance :: "object3d \<Rightarrow> real \<Rightarrow> real" where
  "fitDistance scene fov_deg =
     (case targetMesh scene of None \<Rightarrow> 100 | Some m \<Rightarrow> exactFitDist (worldBox m) fov_deg)"

definition standardDist :: "object3d \<Rightarrow> real \<Rightarrow> real" where
  "standardDist scene fov_deg = fitDistance scene fov_deg * 1.6"

definition macroDist :: "object3d \<Rightarrow> real \<Rightarrow> real" where
  "macroDist scene fov_deg = fitDistance scene fov_deg * 0.55"

subsection \<open>The orientation table and the view sequence\<close>

record orientation =
  o_name :: string
  o_vec :: vec3
  o_up :: vec3

definition baseOrientations :: "orientation list" where
  "baseOrientations =
   [\<lparr>o_name = ''Top'',    o_vec = Vec3 0 1 0,    o_up = Vec3 0 0 (-1)\<rparr>,
    \<lparr>o_name = ''Bottom'', o_vec = Vec3 0 (-1) 0, o_up = Vec3 0 0 1\<rparr>,
    \<lparr>o_name = ''Front'',  o_vec = Vec3 0 0 1,    o_up = Vec3 0 1 0\<rparr>,
    \<lparr>o_name = ''Back'',   o_vec = Vec3 0 0 (-1), o_up = Vec3 0 1 0\<rparr>,
    \<lparr>o_name = ''Left'',   o_vec = Vec3 (-1) 0 0, o_up = Vec3 0 1 0\<rparr>,
    \<lparr>o_name = ''Right'',  o_vec = Vec3 1 0 0,    o_up = Vec3 0 1 0\<rparr>,
    \<lparr>o_name = ''Front-Right'', o_vec = Vec3 1 0 1,       o_up = Vec3 0 1 0\<rparr>,
    \<lparr>o_name = ''Right-Back'',  o_vec = Vec3 1 0 (-1),    o_up = Vec3 0 1 0\<rparr>,
    \<lparr>o_name = ''Back-Left'',   o_vec = Vec3 (-1) 0 (-1), o_up = Vec3 0 1 0\<rparr>,
    \<lparr>o_name = ''Left-Front'',  o_vec = Vec3 (-1) 0 1,    o_up = Vec3 0 1 0\<rparr>,
    \<lparr>o_name = ''Top-Front'',    o_vec = Vec3 0 1 1,       o_up = Vec3 0 1 0\<rparr>,
    \<lparr>o_name = ''Front-Bottom'', o_vec = Vec3 0 (-1) 1,    o_up = Vec3 0 1 0\<rparr>,
    \<lparr>o_name = ''Bottom-Back'',  o_vec = Vec3 0 (-1) (-1), o_up = Vec3 0 1 0\<rparr>,
    \<lparr>o_name = ''Back-Top'',     o_vec = Vec3 0 1 (-1),    o_up = Vec3 0 1 0\<rparr>,
    \<lparr>o_name = ''Top-Right'',    o_vec = Vec3 1 1 0,       o_up = Vec3 0 1 0\<rparr>,
    \<lparr>o_name = ''Right-Bottom'', o_vec = Vec3 1 (-1) 0,    o_up = Vec3 0 1 0\<rparr>,
    \<lparr>o_name = ''Bottom-Left'',  o_vec = Vec3 (-1) (-1) 0, o_up = Vec3 0 1 0\<rparr>,
    \<lparr>o_name = ''Left-Top'',     o_vec = Vec3 (-1) 1 0,    o_up = Vec3 0 1 0\<rparr>]"

record view =
  v_name :: string
  v_offset :: vec3
  v_up :: vec3

definition dir :: "orientation \<Rightarrow> vec3" where
  "dir o' = normalize_v (o_vec o')"

definition views :: "real \<Rightarrow> real \<Rightarrow> view list" where
  \<comment> \<open>Set A (global) is pushed first, then Set B (local), each over the whole table\<close>
  "views standard macro =
     map (\<lambda>o'. \<lparr>v_name = o_name o', v_offset = multiplyScalar (dir o') standard, v_up = o_up o'\<rparr>)
         baseOrientations
     @ map (\<lambda>o'. \<lparr>v_name = o_name o' @ '' Detail'', v_offset = multiplyScalar (dir o') macro,
                 v_up = o_up o'\<rparr>)
         baseOrientations"

subsection \<open>The view labels of the user interface\<close>

definition ORIENTATIONS :: "string list" where
  "ORIENTATIONS =
   [''Top'', ''Bottom'', ''Front'', ''Back'', ''Left'', ''Right'',
    ''Front-Right'', ''Right-Back'', ''Back-Left'', ''Left-Front'',
    ''Top-Front'', ''Front-Bottom'', ''Bottom-Back'', ''Back-Top'',
    ''Top-Right'', ''Right-Bottom'', ''Bottom-Left'', ''Left-Top'']"

definition VIEW_LABELS :: "string list" where
  "VIEW_LABELS = map (\<lambda>name. name @ '' (Global)'') ORIENTATIONS
               @ map (\<lambda>name. name @ '' (Local Detail)'') ORIENTATIONS"

subsection \<open>Camera, controls and the renderer\<close>

datatype euler = Euler (ex: real) (ey: real) (ez: real)

record camera =
  position :: vec3
  rotation :: euler
  up :: vec3
  fov :: real

record controls =
  enabled :: bool
  autoRotate :: bool

text \<open>A thrown JavaScript value.\<close>

datatype exn = Exn string

text \<open>
  What the routine calls but does not define: \<^verbatim>\<open>camera.lookAt\<close> (the rotation that
  the camera takes at a position, with an up-vector, towards a target), \<^verbatim>\<open>gl.render\<close>
  (throws, or draws the scene as the camera sees it), \<^verbatim>\<open>toDataURL\<close> on what was drawn
  (throws, or gives the encoded image), and the controller's own \<^verbatim>\<open>update()\<close>, which
  holds the camera it drives and may move it (an orbit controller with auto-rotation on
  advances the camera about its target at each update). The renderer has a state of its
  own, \<open>'g\<close>: a render or an encoding may depend on it and change it, so that one can go
  through at one pose and throw at a later one, also when both poses show the same camera.
  A renderer whose state is \<open>unit\<close> is a deterministic one: what it draws and whether it
  throws depend on the camera only.
\<close>

record ('g, 'c) three =
  lookAt :: "vec3 \<Rightarrow> vec3 \<Rightarrow> vec3 \<Rightarrow> euler"
  render :: "camera \<Rightarrow> 'g \<Rightarrow> (exn + 'c) \<times> 'g"
  toDataURL :: "'c \<Rightarrow> 'g \<Rightarrow> (exn + string) \<times> 'g"
  update :: "controls \<Rightarrow> camera \<Rightarrow> camera"

text \<open>
  The mutable state the routine works on: the camera, \<^verbatim>\<open>controlsRef.current\<close> and the
  renderer \<^verbatim>\<open>gl\<close>.
\<close>

record 'g world =
  cam :: camera
  ctl :: "controls option"
  gl :: 'g

subsection \<open>The capture routine\<close>

text \<open>
  The body of the \<^verbatim>\<open>for\<close> loop inside \<^verbatim>\<open>try\<close>: an exception leaves the loop at once,
  with the camera at the pose that failed and the snapshots collected so far dropped.
\<close>

fun capture_loop ::
  "('g, 'c) three \<Rightarrow> vec3 \<Rightarrow> view list \<Rightarrow> 'g world \<Rightarrow> string list
     \<Rightarrow> (exn + string list) \<times> 'g world" where
  "capture_loop E c [] w snapshots = (Inr snapshots, w)"
| "capture_loop E c (v # vs) w snapshots =
     (let camPos = vadd c (v_offset v);
          w = w\<lparr>cam := (cam w)\<lparr>position := camPos\<rparr>\<rparr>;
          w = w\<lparr>cam := (cam w)\<lparr>up := v_up v\<rparr>\<rparr>;
          w = w\<lparr>cam := (cam w)\<lparr>rotation := lookAt E (position (cam w)) (up (cam w)) c\<rparr>\<rparr>
      in case render E (cam w) (gl w) of
           (Inl e, g) \<Rightarrow> (Inl e, w\<lparr>gl := g\<rparr>)
         | (Inr drawn, g) \<Rightarrow>
             (case toDataURL E drawn g of
                (Inl e, g') \<Rightarrow> (Inl e, w\<lparr>gl := g'\<rparr>)
              | (Inr dataUrl, g') \<Rightarrow> capture_loop E c vs (w\<lparr>gl := g'\<rparr>) (snapshots @ [dataUrl])))"

text \<open>
  The \<^verbatim>\<open>finally\<close> block. It returns the exception of its own last render, if any: an
  exception thrown inside \<^verbatim>\<open>finally\<close> replaces the one that was pending.
\<close>

definition restore ::
  "('g, 'c) three \<Rightarrow> vec3 \<Rightarrow> euler \<Rightarrow> vec3 \<Rightarrow> 'g world \<Rightarrow> exn option \<times> 'g world" where
  "restore E originalPosition originalRotation originalUp w =
     (let w = w\<lparr>cam := (cam w)\<lparr>up := originalUp\<rparr>\<rparr>;
          w = w\<lparr>cam := (cam w)\<lparr>position := originalPosition\<rparr>\<rparr>;
          w = w\<lparr>cam := (cam w)\<lparr>rotation := originalRotation\<rparr>\<rparr>;
          w = (case ctl w of
                 None \<Rightarrow> w
               | Some h \<Rightarrow>
                   (let h = h\<lparr>enabled := True\<rparr>;
                        h = h\<lparr>autoRotate := True\<rparr>
                    in w\<lparr>ctl := Some h, cam := update E h (cam w)\<rparr>))
      in case render E (cam w) (gl w) of
           (Inl e, g) \<Rightarrow> (Some e, w\<lparr>gl := g\<rparr>)
         | (Inr drawn, g) \<Rightarrow> (None, w\<lparr>gl := g\<rparr>))"

definition captureMultiViews ::
  "('g, 'c) three \<Rightarrow> object3d \<Rightarrow> 'g world \<Rightarrow> (exn + string list) \<times> 'g world" where
  "captureMultiViews E scene w =
     (let c = center scene;
          standard = standardDist scene (fov (cam w));
          macro = macroDist scene (fov (cam w));
          originalPosition = position (cam w);
          originalRotation = rotation (cam w);
          originalUp = up (cam w);
          w = (case ctl w of
                 None \<Rightarrow> w
               | Some h \<Rightarrow> w\<lparr>ctl := Some (h\<lparr>enabled := False, autoRotate := False\<rparr>)\<rparr>);
          (r, w) = capture_loop E c (views standard macro) w [];
          (thrown, w) = restore E originalPosition originalRotation originalUp w
      in case thrown of
           Some e \<Rightarrow> (Inl e, w)
         | None \<Rightarrow> (r, w))"

subsection \<open>What one call does, step by step\<close>

text \<open>
  The camera that the loop hands to the renderer for a view: position, up-vector and
  rotation are overwritten at every pose, the field of view is never written.
\<close>

definition pose_camera :: "('g, 'c) three \<Rightarrow> vec3 \<Rightarrow> camera \<Rightarrow> view \<Rightarrow> camera" where
  "pose_camera E c cm v =
     cm\<lparr>position := vadd c (v_offset v), up := v_up v,
        rotation := lookAt E (vadd c (v_offset v)) (v_up v) c\<rparr>"

text \<open>Render, then encode: the two calls of the loop body that can throw.\<close>

definition shoot :: "('g, 'c) three \<Rightarrow> camera \<Rightarrow> 'g \<Rightarrow> (exn + string) \<times> 'g" where
  "shoot E cm g =
     (case render E cm g of
        (Inl e, g') \<Rightarrow> (Inl e, g')
      | (Inr drawn, g') \<Rightarrow> toDataURL E drawn g')"

text \<open>
  Shooting a list of cameras one after the other, whatever each shot gives: the outcomes in
  order, and the state of the renderer after the last one.
\<close>

fun shots :: "('g, 'c) three \<Rightarrow> 'g \<Rightarrow> camera list \<Rightarrow> (exn + string) list \<times> 'g" where
  "shots E g [] = ([], g)"
| "shots E g (cm # cms) =
     (case shoot E cm g of
        (r, g') \<Rightarrow> (case shots E g' cms of (rs, g'') \<Rightarrow> (r # rs, g'')))"

text \<open>The 36 cameras of one call, in the order of \<open>views\<close>.\<close>

definition poses :: "('g, 'c) three \<Rightarrow> object3d \<Rightarrow> camera \<Rightarrow> camera list" where
  "poses E scene cm =
     map (pose_camera E (center scene) cm)
         (views (standardDist scene (fov cm)) (macroDist scene (fov cm)))"

definition suspended :: "'g world \<Rightarrow> 'g world" where
  "suspended w = (case ctl w of None \<Rightarrow> w
                  | Some h \<Rightarrow> w\<lparr>ctl := Some (h\<lparr>enabled := False, autoRotate := False\<rparr>)\<rparr>)"

definition reenabled :: "controls \<Rightarrow> controls" where
  "reenabled h = h\<lparr>enabled := True, autoRotate := True\<rparr>"

text \<open>
  The camera and the controller that the \<^verbatim>\<open>finally\<close> block leaves when it starts from
  the camera of the snapshot: the controller, if there is one, is switched on again and
  then updates.
\<close>

definition restored :: "('g, 'c) three \<Rightarrow> 'g world \<Rightarrow> 'g world" where
  "restored E w =
     (case ctl w of None \<Rightarrow> w
      | Some h \<Rightarrow> w\<lparr>ctl := Some (reenabled h), cam := update E (reenabled h) (cam w)\<rparr>)"

subsection \<open>Fit distance within the range of a double\<close>


















subsection \<open>Scenes, renderers and controllers used as examples\<close>

definition cube_scene :: object3d where
  "cube_scene = Object3D True ''target-mesh'' (Box3 (Vec3 (-1) (-1) (-1)) (Vec3 1 1 1)) []"

definition point_scene :: object3d where
  "point_scene = Object3D True ''target-mesh'' (Box3 (Vec3 0 0 0) (Vec3 0 0 0)) []"

definition bare_scene :: object3d where
  "bare_scene = Object3D False ''scene'' (Box3 (Vec3 0 0 0) (Vec3 0 0 0)) []"



text \<open>The camera of the application's canvas, with an orbit controller attached.\<close>

definition w0 :: "unit world" where
  "w0 = \<lparr>cam = \<lparr>position = Vec3 50 50 50, rotation = Euler 0 0 0, up = Vec3 0 1 0, fov = 40\<rparr>,
         ctl = Some \<lparr>enabled = True, autoRotate = True\<rparr>, gl = ()\<rparr>"

definition w_free :: "unit world" where
  "w_free = \<lparr>cam = \<lparr>position = Vec3 50 50 50, rotation = Euler 0 0 0, up = Vec3 0 1 0, fov = 40\<rparr>,
             ctl = None, gl = ()\<rparr>"

text \<open>The same camera and controller, with a renderer that has made no render call yet.\<close>

definition w_count :: "nat world" where
  "w_count = \<lparr>cam = \<lparr>position = Vec3 50 50 50, rotation = Euler 0 0 0, up = Vec3 0 1 0, fov = 40\<rparr>,
              ctl = Some \<lparr>enabled = True, autoRotate = True\<rparr>, gl = 0\<rparr>"

text \<open>A renderer that never throws, with a controller whose update leaves the camera alone.\<close>

definition still_env :: "(unit, camera) three" where
  "still_env = \<lparr>lookAt = (\<lambda>eye u target. Euler 0 0 0),
                render = (\<lambda>cm g. (Inr cm, g)),
                toDataURL = (\<lambda>drawn g. (Inr ''data:image/jpeg'', g)),
                update = (\<lambda>h cm. cm)\<rparr>"

text \<open>
  The same renderer with an orbit controller: with auto-rotation on, each update turns the
  camera about the vertical axis through the origin (a quarter turn, to keep numbers plain).
\<close>

definition orbit_env :: "(unit, camera) three" where
  "orbit_env = \<lparr>lookAt = (\<lambda>eye u target. Euler 0 0 0),
                render = (\<lambda>cm g. (Inr cm, g)),
                toDataURL = (\<lambda>drawn g. (Inr ''data:image/jpeg'', g)),
                update = (\<lambda>h cm. if autoRotate h
                                  then cm\<lparr>position := Vec3 (vz (position cm)) (vy (position cm))
                                                            (- vx (position cm))\<rparr>
                                  else cm)\<rparr>"

text \<open>
  A renderer that counts its render calls and throws at the fourth one, whatever the
  camera is.
\<close>

definition fourth_fails_env :: "(nat, camera) three" where
  "fourth_fails_env = \<lparr>lookAt = (\<lambda>eye u target. Euler 0 0 0),
                       render = (\<lambda>cm n. (if n = 3 then Inl (Exn ''render failed'') else Inr cm,
                                          Suc n)),
                       toDataURL = (\<lambda>drawn n. (Inr ''data:image/jpeg'', n)),
                       update = (\<lambda>h cm. cm)\<rparr>"

text \<open>A renderer that always throws, naming the camera position in what it throws.\<close>

definition lost_env :: "(unit, camera) three" where
  "lost_env = \<lparr>lookAt = (\<lambda>eye u target. Euler 0 0 0),
               render = (\<lambda>cm g. (Inl (Exn (if position cm = Vec3 50 50 50
                                             then ''lost at the viewer pose''
                                             else ''lost at a capture pose'')), g)),
               toDataURL = (\<lambda>drawn g. (Inr ''data:image/jpeg'', g)),
               update = (\<lambda>h cm. cm)\<rparr>"

section \<open>Properties\<close>

subsection \<open>The table, the views and the labels\<close>

lemma length_baseOrientations: "length baseOrientations = 18"
  by (simp add: baseOrientations_def)

lemma ORIENTATIONS_names: "ORIENTATIONS = map o_name baseOrientations"
  by (simp add: ORIENTATIONS_def baseOrientations_def)

lemma length_views: "length (views s m) = 36"
  by (simp add: views_def length_baseOrientations)

lemma views_nth_global:
  "i < 18 \<Longrightarrow> views s m ! i =
     \<lparr>v_name = o_name (baseOrientations ! i),
      v_offset = multiplyScalar (dir (baseOrientations ! i)) s,
      v_up = o_up (baseOrientations ! i)\<rparr>"
  by (simp add: views_def nth_append length_baseOrientations)

lemma views_nth_local:
  "i < 18 \<Longrightarrow> views s m ! (18 + i) =
     \<lparr>v_name = o_name (baseOrientations ! i) @ '' Detail'',
      v_offset = multiplyScalar (dir (baseOrientations ! i)) m,
      v_up = o_up (baseOrientations ! i)\<rparr>"
  by (simp add: views_def nth_append length_baseOrientations)

lemma VIEW_LABELS_nth_global:
  "i < 18 \<Longrightarrow> VIEW_LABELS ! i = o_name (baseOrientations ! i) @ '' (Global)''"
  by (simp add: VIEW_LABELS_def ORIENTATIONS_names nth_append length_baseOrientations)

lemma VIEW_LABELS_nth_local:
  "i < 18 \<Longrightarrow> VIEW_LABELS ! (18 + i) = o_name (baseOrientations ! i) @ '' (Local Detail)''"
  by (simp add: VIEW_LABELS_def ORIENTATIONS_names nth_append length_baseOrientations)

text \<open>
  Claim C10. The user interface has 36 labels, as many as the capture routine has views;
  label \<open>i\<close> of the first block is the name of view \<open>i\<close> with \<^verbatim>\<open>(Global)\<close>, and
  view \<open>i\<close> is at the standard distance along direction \<open>i\<close> of the table; label \<open>18 + i\<close>
  is the same orientation name with \<^verbatim>\<open>(Local Detail)\<close>, and view \<open>18 + i\<close> is that
  orientation's \<^verbatim>\<open>Detail\<close> view at the macro distance.
\<close>

theorem view_labels_match:
  "length VIEW_LABELS = 36 \<and> length (views s m) = 36 \<and>
   (\<forall>i<18. VIEW_LABELS ! i = v_name (views s m ! i) @ '' (Global)'' \<and>
            v_offset (views s m ! i) = multiplyScalar (dir (baseOrientations ! i)) s \<and>
            v_name (views s m ! (18 + i)) = v_name (views s m ! i) @ '' Detail'' \<and>
            VIEW_LABELS ! (18 + i) = v_name (views s m ! i) @ '' (Local Detail)'' \<and>
            v_offset (views s m ! (18 + i)) = multiplyScalar (dir (baseOrientations ! i)) m)"
  by (simp add: views_nth_global views_nth_local VIEW_LABELS_nth_global VIEW_LABELS_nth_local
      length_views) (simp add: VIEW_LABELS_def ORIENTATIONS_def)

theorem view_labels_match_witness:
  "(5::nat) < 18 \<and> VIEW_LABELS ! 5 = ''Right (Global)'' \<and> v_name (views 160 55 ! 5) = ''Right'' \<and>
   VIEW_LABELS ! 23 = ''Right (Local Detail)'' \<and> v_name (views 160 55 ! 23) = ''Right Detail''"
proof -
  have n: "v_name (views 160 55 ! 5) = ''Right''"
    by (simp add: views_nth_global) (simp add: baseOrientations_def)
  have "(5::nat) < 18" by simp
  with view_labels_match [of 160 55] have
    "VIEW_LABELS ! 5 = v_name (views 160 55 ! 5) @ '' (Global)'' \<and>
     v_name (views 160 55 ! (18 + 5)) = v_name (views 160 55 ! 5) @ '' Detail'' \<and>
     VIEW_LABELS ! (18 + 5) = v_name (views 160 55 ! 5) @ '' (Local Detail)''"
    by blast
  with n show ?thesis by simp
qed

subsection \<open>Directions and up-vectors\<close>

lemma vlength_multiplyScalar: "vlength (multiplyScalar v s) = \<bar>s\<bar> * vlength v"
proof -
  have "vx v * s * (vx v * s) + vy v * s * (vy v * s) + vz v * s * (vz v * s)
        = s\<^sup>2 * (vx v * vx v + vy v * vy v + vz v * vz v)"
    by (simp add: power2_eq_square algebra_simps)
  then show ?thesis
    by (simp add: vlength_def multiplyScalar_def real_sqrt_mult)
qed

lemma vlength_nonneg: "0 \<le> vlength v"
  by (simp add: vlength_def)

lemma vlength_zero_iff: "vlength v = 0 \<longleftrightarrow> v = Vec3 0 0 0"
proof -
  have "vx v * vx v + vy v * vy v + vz v * vz v = 0 \<longleftrightarrow> vx v = 0 \<and> vy v = 0 \<and> vz v = 0"
    by (smt (verit) mult_eq_0_iff zero_le_square add_nonneg_eq_0_iff)
  then show ?thesis
    by (cases v) (simp add: vlength_def)
qed

lemma vlength_normalize: "v \<noteq> Vec3 0 0 0 \<Longrightarrow> vlength (normalize_v v) = 1"
  using vlength_nonneg [of v]
  by (simp add: normalize_v_def divideScalar_def vlength_multiplyScalar vlength_zero_iff)

lemma cross_multiplyScalar: "cross (multiplyScalar a s) b = multiplyScalar (cross a b) s"
  by (simp add: cross_def multiplyScalar_def algebra_simps)

lemma multiplyScalar_zero_iff: "multiplyScalar v s = Vec3 0 0 0 \<longleftrightarrow> s = 0 \<or> v = Vec3 0 0 0"
  by (cases v) (auto simp: multiplyScalar_def)

lemma parallel_normalize:
  "v \<noteq> Vec3 0 0 0 \<Longrightarrow> parallel (normalize_v v) u \<longleftrightarrow> parallel v u"
  by (simp add: parallel_def normalize_v_def divideScalar_def cross_multiplyScalar
      multiplyScalar_zero_iff vlength_zero_iff)

lemma table_vectors:
  "\<forall>o' \<in> set baseOrientations. o_vec o' \<noteq> Vec3 0 0 0 \<and> \<not> parallel (o_vec o') (o_up o')"
  by (simp add: baseOrientations_def parallel_def cross_def)

lemma table_dir:
  "o' \<in> set baseOrientations \<Longrightarrow> vlength (dir o') = 1 \<and> \<not> parallel (dir o') (o_up o')"
  using table_vectors by (simp add: dir_def vlength_normalize parallel_normalize)

text \<open>
  Claim C8. Every view of the sequence is some direction of the table, scaled by one of the
  two distances, with that entry's up-vector; the direction has length 1 and is neither
  parallel nor anti-parallel to the up-vector.
\<close>

theorem pose_directions:
  "v \<in> set (views s m) \<Longrightarrow>
     \<exists>o' d. o' \<in> set baseOrientations \<and> (d = s \<or> d = m) \<and>
            v_offset v = multiplyScalar (dir o') d \<and> v_up v = o_up o' \<and>
            vlength (dir o') = 1 \<and> \<not> parallel (dir o') (v_up v)"
proof -
  assume "v \<in> set (views s m)"
  then obtain o' where o: "o' \<in> set baseOrientations"
    and v: "v = \<lparr>v_name = o_name o', v_offset = multiplyScalar (dir o') s, v_up = o_up o'\<rparr>
          \<or> v = \<lparr>v_name = o_name o' @ '' Detail'', v_offset = multiplyScalar (dir o') m, v_up = o_up o'\<rparr>"
    by (auto simp: views_def)
  from v show ?thesis
  proof
    assume "v = \<lparr>v_name = o_name o', v_offset = multiplyScalar (dir o') s, v_up = o_up o'\<rparr>"
    with table_dir [OF o] o show ?thesis
      by (intro exI [of _ o'] exI [of _ s]) simp
  next
    assume "v = \<lparr>v_name = o_name o' @ '' Detail'', v_offset = multiplyScalar (dir o') m, v_up = o_up o'\<rparr>"
    with table_dir [OF o] o show ?thesis
      by (intro exI [of _ o'] exI [of _ m]) simp
  qed
qed

theorem pose_directions_witness:
  "\<lparr>v_name = ''Front-Right'',
    v_offset = multiplyScalar (dir \<lparr>o_name = ''Front-Right'', o_vec = Vec3 1 0 1, o_up = Vec3 0 1 0\<rparr>) 160,
    v_up = Vec3 0 1 0\<rparr> \<in> set (views 160 55) \<and>
   (\<exists>o' d. o' \<in> set baseOrientations \<and> (d = 160 \<or> d = 55) \<and>
      multiplyScalar (dir \<lparr>o_name = ''Front-Right'', o_vec = Vec3 1 0 1, o_up = Vec3 0 1 0\<rparr>) 160
        = multiplyScalar (dir o') d \<and>
      Vec3 0 1 0 = o_up o' \<and> vlength (dir o') = 1 \<and> \<not> parallel (dir o') (Vec3 0 1 0))"
proof -
  define v where "v = \<lparr>v_name = ''Front-Right'',
    v_offset = multiplyScalar (dir \<lparr>o_name = ''Front-Right'', o_vec = Vec3 1 0 1, o_up = Vec3 0 1 0\<rparr>) 160,
    v_up = Vec3 0 1 0\<rparr>"
  have m: "v \<in> set (views 160 55)"
    by (simp add: v_def views_def baseOrientations_def)
  from pose_directions [OF m] m show ?thesis
    by (simp add: v_def)
qed

subsection \<open>Target resolution and fit distance\<close>





lemma targetMesh_cube: "targetMesh cube_scene = Some cube_scene"
  by (simp add: targetMesh_def cube_scene_def)




subsection \<open>The end-to-end scenario\<close>

lemma sqrt3_bounds: "1.732 < sqrt (3::real)" "sqrt (3::real) < 1.7321"
proof -
  show "1.732 < sqrt (3::real)"
    by (rule real_less_rsqrt) (simp add: power2_eq_square)
  show "sqrt (3::real) < 1.7321"
    by (rule real_less_lsqrt) (simp_all add: power2_eq_square)
qed

lemma tan20_cubic:
  fixes t :: real
  defines "t \<equiv> tan (pi / 9)"
  shows "0 < t" "t < 1" "t ^ 3 - 3 * sqrt 3 * t\<^sup>2 - 3 * t + sqrt 3 = 0"
proof -
  have pi: "0 < pi" by simp
  have b: "0 < pi / 9" "pi / 9 < pi / 2" "- (pi / 2) < pi / 9" "pi / 9 < pi / 4" "pi / 4 < pi / 2"
    "- (pi / 2) < 2 * (pi / 9)" "2 * (pi / 9) < pi / 2"
    "- (pi / 2) < 2 * (pi / 9) + pi / 9" "2 * (pi / 9) + pi / 9 < pi / 2"
    using pi by linarith+
  show t0: "0 < t" unfolding t_def by (rule tan_gt_zero) (rule b)+
  have "tan (pi / 9) < tan (pi / 4)" by (rule tan_monotone) (rule b)+
  then show t1: "t < 1" by (simp add: t_def tan_45)
  have c1: "cos (pi / 9) \<noteq> 0" using cos_gt_zero_pi [of "pi / 9"] b by simp
  have c2: "cos (2 * (pi / 9)) \<noteq> 0" using cos_gt_zero_pi [OF b(6,7)] by simp
  have c3: "cos (2 * (pi / 9) + pi / 9) \<noteq> 0"
    using cos_gt_zero_pi [OF b(8,9)] by simp
  define T where "T = tan (2 * (pi / 9))"
  have T: "T = 2 * t / (1 - t\<^sup>2)"
    unfolding T_def t_def by (rule tan_double [OF c1 c2])
  have "2 * (pi / 9) + pi / 9 = pi / 3" by simp
  then have "sqrt 3 = tan (2 * (pi / 9) + pi / 9)" by (simp add: tan_60)
  also have "\<dots> = (T + t) / (1 - T * t)"
    unfolding T_def t_def by (rule tan_add [OF c2 c1 c3])
  finally have eq: "sqrt 3 = (T + t) / (1 - T * t)" .
  have d: "1 - T * t \<noteq> 0"
  proof
    assume "1 - T * t = 0"
    with eq have "sqrt (3::real) = 0" by simp
    then show False by simp
  qed
  from eq d have e2: "sqrt 3 * (1 - T * t) = T + t" by (simp add: field_simps)
  have n: "1 - t\<^sup>2 \<noteq> 0" using t0 t1 by (smt (verit) power2_eq_square mult_less_cancel_left2 power_one_right one_power2 power_strict_mono pos2)
  define D where "D = 1 - t\<^sup>2"
  have TD: "T * D = 2 * t" using T n by (simp add: D_def)
  have "sqrt 3 * (1 - T * t) * D = (T + t) * D" using e2 by simp
  then have "sqrt 3 * (D - (T * D) * t) = T * D + t * D" by (simp add: algebra_simps)
  then have "sqrt 3 * (D - (2 * t) * t) = 2 * t + t * D" by (simp only: TD)
  then show "t ^ 3 - 3 * sqrt 3 * t\<^sup>2 - 3 * t + sqrt 3 = 0"
    by (simp add: D_def algebra_simps power2_eq_square power3_eq_cube)
qed

lemma mult_lt_one: "0 < x \<Longrightarrow> x < 1 \<Longrightarrow> 0 < y \<Longrightarrow> y < 1 \<Longrightarrow> x * y < (1::real)"
  using mult_strict_mono [of x 1 y 1] by simp

lemma tan20_bounds: "0.36392 < tan (pi / 9)" "tan (pi / 9) < 0.36402"
proof -
  define t :: real where "t = tan (pi / 9)"
  define p :: "real \<Rightarrow> real" where "p = (\<lambda>x. x ^ 3 - 3 * sqrt 3 * x\<^sup>2 - 3 * x + sqrt 3)"
  have t: "0 < t" "t < 1" and pt: "p t = 0"
    using tan20_cubic by (simp_all add: t_def p_def)
  have diff: "p a - p t = (a - t) * (a * a + a * t + t * t - 3 * sqrt 3 * (a + t) - 3)" for a
    by (simp add: p_def algebra_simps power2_eq_square power3_eq_cube)
  have neg: "a * a + a * t + t * t - 3 * sqrt 3 * (a + t) - 3 < 0" if "0 < a" "a < 1" for a
  proof -
    have "a * a < 1" using that by (simp add: mult_lt_one)
    moreover have "a * t < 1" using that t by (simp add: mult_lt_one)
    moreover have "t * t < 1" using t by (simp add: mult_lt_one)
    moreover have "0 \<le> 3 * sqrt 3 * (a + t)" using that t by simp
    ultimately show ?thesis by linarith
  qed
  have lo: "0 < p 0.36392"
  proof -
    have "p 0.36392 = (0.36392 ^ 3 - 3 * 0.36392) + sqrt 3 * (1 - 3 * 0.36392\<^sup>2)"
      by (simp add: p_def algebra_simps)
    moreover have "1.732 * (1 - 3 * 0.36392\<^sup>2) \<le> sqrt 3 * (1 - 3 * 0.36392\<^sup>2 :: real)"
      by (rule mult_right_mono) (use sqrt3_bounds in \<open>simp_all add: power2_eq_square\<close>)
    moreover have "0 < (0.36392 ^ 3 - 3 * 0.36392) + 1.732 * (1 - 3 * 0.36392\<^sup>2 :: real)"
      by (simp add: power2_eq_square power3_eq_cube)
    ultimately show ?thesis by linarith
  qed
  have hi: "p 0.36402 < 0"
  proof -
    have "p 0.36402 = (0.36402 ^ 3 - 3 * 0.36402) + sqrt 3 * (1 - 3 * 0.36402\<^sup>2)"
      by (simp add: p_def algebra_simps)
    moreover have "sqrt 3 * (1 - 3 * 0.36402\<^sup>2 :: real) \<le> 1.7321 * (1 - 3 * 0.36402\<^sup>2)"
      by (rule mult_right_mono) (use sqrt3_bounds in \<open>simp_all add: power2_eq_square\<close>)
    moreover have "(0.36402 ^ 3 - 3 * 0.36402) + 1.7321 * (1 - 3 * 0.36402\<^sup>2 :: real) < 0"
      by (simp add: power2_eq_square power3_eq_cube)
    ultimately show ?thesis by linarith
  qed
  have below: "a < t" if a: "0 < a" "a < 1" and pa: "0 < p a" for a
  proof (rule ccontr)
    assume "\<not> a < t"
    then have "0 \<le> a - t" by simp
    moreover have "a * a + a * t + t * t - 3 * sqrt 3 * (a + t) - 3 \<le> 0"
      using neg [OF a] by simp
    ultimately have "(a - t) * (a * a + a * t + t * t - 3 * sqrt 3 * (a + t) - 3) \<le> 0"
      by (rule mult_nonneg_nonpos)
    with diff [of a] pt pa show False by simp
  qed
  have above: "t < a" if a: "0 < a" "a < 1" and pa: "p a < 0" for a
  proof (rule ccontr)
    assume "\<not> t < a"
    then have "a - t \<le> 0" by simp
    moreover have "a * a + a * t + t * t - 3 * sqrt 3 * (a + t) - 3 \<le> 0"
      using neg [OF a] by simp
    ultimately have "0 \<le> (a - t) * (a * a + a * t + t * t - 3 * sqrt 3 * (a + t) - 3)"
      by (rule mult_nonpos_nonpos)
    with diff [of a] pt pa show False by simp
  qed
  show "0.36392 < tan (pi / 9)" using below [OF _ _ lo] by (simp add: t_def)
  show "tan (pi / 9) < 0.36402" using above [OF _ _ hi] by (simp add: t_def)
qed

lemma fit_cube_40: "fitDistance cube_scene 40 = 1 / tan (pi / 9)"
proof -
  have "40 * (pi / 180) / 2 = pi / 9" by simp
  moreover have "0 < tan (pi / 9)" using tan20_bounds by simp
  ultimately show ?thesis
    by (simp add: fitDistance_def targetMesh_cube exactFitDist_def)
       (simp add: cube_scene_def getSize_def isEmpty_def vsub_def Math_max_def)
qed

lemma fit_cube_40_bounds: "2.747 < fitDistance cube_scene 40" "fitDistance cube_scene 40 < 2.748"
proof -
  have t: "0 < tan (pi / 9)" using tan20_bounds by simp
  have "2.747 * tan (pi / 9) < 1" using tan20_bounds(2) by simp
  then show "2.747 < fitDistance cube_scene 40"
    using t by (simp add: fit_cube_40 field_simps)
  have "1 < 2.748 * tan (pi / 9)" using tan20_bounds(1) by simp
  then show "fitDistance cube_scene 40 < 2.748"
    using t by (simp add: fit_cube_40 field_simps)
qed

lemma center_cube: "center cube_scene = Vec3 0 0 0"
  by (simp add: center_def targetMesh_cube)
     (simp add: cube_scene_def getCenter_def isEmpty_def vadd_def multiplyScalar_def)

lemma dir_top: "dir (baseOrientations ! 0) = Vec3 0 1 0"
  by (simp add: baseOrientations_def dir_def normalize_v_def divideScalar_def vlength_def
      multiplyScalar_def)

text \<open>
  Claim C5. The standard distance is 1.6 times the fit distance and the macro distance 0.55
  times. For the box from \<open>(-1, -1, -1)\<close> to \<open>(1, 1, 1)\<close> and a field of view of 40 degrees the
  fit distance is \<open>1 / tan 20\<degree>\<close>, within 0.001 of 2.747; the standard distance is within
  0.005 of 4.40 and the macro distance within 0.005 of 1.51; the first view is Top, at
  \<open>(0, standard, 0)\<close> with up-vector \<open>(0, 0, -1)\<close>, and the nineteenth is Top Detail, at
  \<open>(0, macro, 0)\<close>.
\<close>

theorem capture_distances:
  "standardDist scene f = fitDistance scene f * 1.6 \<and>
   macroDist scene f = fitDistance scene f * 0.55 \<and>
   fitDistance cube_scene 40 = 1 / tan (20 * (pi / 180)) \<and>
   \<bar>fitDistance cube_scene 40 - 2.747\<bar> < 0.001 \<and>
   \<bar>standardDist cube_scene 40 - 4.40\<bar> < 0.005 \<and>
   \<bar>macroDist cube_scene 40 - 1.51\<bar> < 0.005 \<and>
   v_name (views (standardDist cube_scene 40) (macroDist cube_scene 40) ! 0) = ''Top'' \<and>
   vadd (center cube_scene) (v_offset (views (standardDist cube_scene 40) (macroDist cube_scene 40) ! 0))
     = Vec3 0 (standardDist cube_scene 40) 0 \<and>
   v_up (views (standardDist cube_scene 40) (macroDist cube_scene 40) ! 0) = Vec3 0 0 (-1) \<and>
   v_name (views (standardDist cube_scene 40) (macroDist cube_scene 40) ! 18) = ''Top Detail'' \<and>
   vadd (center cube_scene) (v_offset (views (standardDist cube_scene 40) (macroDist cube_scene 40) ! 18))
     = Vec3 0 (macroDist cube_scene 40) 0"
proof -
  have a: "20 * (pi / 180) = pi / 9" by simp
  have g: "views s m ! 0 = \<lparr>v_name = ''Top'', v_offset = Vec3 0 s 0, v_up = Vec3 0 0 (-1)\<rparr>" for s m
    using views_nth_global [of 0 s m] dir_top
    by (simp add: multiplyScalar_def) (simp add: baseOrientations_def)
  have l: "views s m ! 18 = \<lparr>v_name = ''Top Detail'', v_offset = Vec3 0 m 0, v_up = Vec3 0 0 (-1)\<rparr>" for s m
    using views_nth_local [of 0 s m] dir_top
    by (simp add: multiplyScalar_def) (simp add: baseOrientations_def)
  have c1: "standardDist scene f = fitDistance scene f * 1.6"
    and c2: "macroDist scene f = fitDistance scene f * 0.55"
    by (simp_all add: standardDist_def macroDist_def)
  have c3: "fitDistance cube_scene 40 = 1 / tan (20 * (pi / 180))"
    by (simp only: a fit_cube_40)
  have c4: "\<bar>fitDistance cube_scene 40 - 2.747\<bar> < 0.001"
    using fit_cube_40_bounds by (simp add: abs_less_iff)
  have c5: "\<bar>standardDist cube_scene 40 - 4.40\<bar> < 0.005"
    using fit_cube_40_bounds by (simp add: standardDist_def abs_less_iff)
  have c6: "\<bar>macroDist cube_scene 40 - 1.51\<bar> < 0.005"
    using fit_cube_40_bounds by (simp add: macroDist_def abs_less_iff)
  have c7: "vadd (center cube_scene) (Vec3 0 d 0) = Vec3 0 d 0" for d
    by (simp add: center_cube vadd_def)
  from c1 c2 c3 c4 c5 c6 show ?thesis
    by (simp only: g l c7 view.simps)
qed

subsection \<open>The fit distance as a JavaScript number\<close>










subsection \<open>The capture loop and the cleanup\<close>

lemma capture_loop_step:
  "capture_loop E c (v # vs) w snaps =
     (case shoot E (pose_camera E c (cam w) v) (gl w) of
        (Inl e, g) \<Rightarrow> (Inl e, w\<lparr>cam := pose_camera E c (cam w) v, gl := g\<rparr>)
      | (Inr d, g) \<Rightarrow>
          capture_loop E c vs (w\<lparr>cam := pose_camera E c (cam w) v, gl := g\<rparr>) (snaps @ [d]))"
  by (simp add: Let_def shoot_def pose_camera_def split: sum.splits prod.splits)

lemma pose_camera_absorb: "pose_camera E c (pose_camera E c cm v') v = pose_camera E c cm v"
  by (simp add: pose_camera_def)

lemma pose_camera_absorb_fun: "pose_camera E c (pose_camera E c cm v') = pose_camera E c cm"
  by (rule ext) (rule pose_camera_absorb)

lemma pose_camera_fov: "fov cm' = fov cm \<Longrightarrow> pose_camera E c cm' v = pose_camera E c cm v"
  by (cases cm, cases cm') (simp add: pose_camera_def)

lemma pose_camera_fields:
  "position (pose_camera E c cm v) = vadd c (v_offset v)"
  "up (pose_camera E c cm v) = v_up v"
  "rotation (pose_camera E c cm v) = lookAt E (vadd c (v_offset v)) (v_up v) c"
  "fov (pose_camera E c cm v) = fov cm"
  by (simp_all add: pose_camera_def)

lemma shots_Cons:
  "shots E g (cm # cms) =
     (fst (shoot E cm g) # fst (shots E (snd (shoot E cm g)) cms),
      snd (shots E (snd (shoot E cm g)) cms))"
  by (simp split: prod.splits)

lemma length_shots: "length (fst (shots E g cms)) = length cms"
  by (induction cms arbitrary: g) (simp_all add: shots_Cons del: shots.simps(2))

lemma capture_loop_state:
  "ctl (snd (capture_loop E c vs w snaps)) = ctl w \<and>
   fov (cam (snd (capture_loop E c vs w snaps))) = fov (cam w)"
proof (induction vs arbitrary: w snaps)
  case Nil
  show ?case by simp
next
  case (Cons v vs)
  show ?case
    by (simp only: capture_loop_step)
       (simp add: Cons.IH pose_camera_fields split: sum.splits prod.splits)
qed

text \<open>
  The loop against \<open>shots\<close>: when every shot goes through, the loop returns the frames and
  ends at the last pose; when the shot at pose \<open>k\<close> is the first to throw, the loop ends
  there, with the camera at pose \<open>k\<close> and the renderer as that shot left it.
\<close>

lemma capture_loop_ok:
  "fst (shots E (gl w) (map (pose_camera E c (cam w)) vs)) = map Inr ds \<Longrightarrow>
     capture_loop E c vs w snaps =
       (Inr (snaps @ ds),
        w\<lparr>cam := last (cam w # map (pose_camera E c (cam w)) vs),
          gl := snd (shots E (gl w) (map (pose_camera E c (cam w)) vs))\<rparr>)"
proof (induction vs arbitrary: w snaps ds)
  case Nil
  then show ?case by simp
next
  case (Cons v vs)
  let ?cm = "pose_camera E c (cam w) v"
  let ?w = "w\<lparr>cam := ?cm, gl := snd (shoot E ?cm (gl w))\<rparr>"
  from Cons.prems obtain d ds' where ds: "ds = d # ds'"
    and d: "fst (shoot E ?cm (gl w)) = Inr d"
    and rest: "fst (shots E (snd (shoot E ?cm (gl w))) (map (pose_camera E c (cam w)) vs)) = map Inr ds'"
    by (cases ds) (auto simp: shots_Cons simp del: shots.simps(2))
  have "capture_loop E c vs ?w (snaps @ [d]) =
          (Inr ((snaps @ [d]) @ ds'),
           ?w\<lparr>cam := last (cam ?w # map (pose_camera E c (cam ?w)) vs),
              gl := snd (shots E (gl ?w) (map (pose_camera E c (cam ?w)) vs))\<rparr>)"
    by (rule Cons.IH) (simp add: pose_camera_absorb_fun rest)
  then have "capture_loop E c vs ?w (snaps @ [d]) =
          (Inr (snaps @ ds),
           w\<lparr>cam := last (cam w # map (pose_camera E c (cam w)) (v # vs)),
             gl := snd (shots E (gl w) (map (pose_camera E c (cam w)) (v # vs)))\<rparr>)"
    by (simp add: pose_camera_absorb_fun ds shots_Cons del: shots.simps(2))
  with d show ?case
    by (simp only: capture_loop_step) (simp add: prod_eq_iff split: prod.splits sum.splits)
qed

lemma capture_loop_fail:
  "k < length vs \<Longrightarrow>
   fst (shots E (gl w) (map (pose_camera E c (cam w)) (take (Suc k) vs))) = map Inr ds @ [Inl e] \<Longrightarrow>
     capture_loop E c vs w snaps =
       (Inl e,
        w\<lparr>cam := pose_camera E c (cam w) (vs ! k),
          gl := snd (shots E (gl w) (map (pose_camera E c (cam w)) (take (Suc k) vs)))\<rparr>)"
proof (induction vs arbitrary: w snaps k ds)
  case Nil
  then show ?case by simp
next
  case (Cons v vs)
  let ?cm = "pose_camera E c (cam w) v"
  let ?w = "w\<lparr>cam := ?cm, gl := snd (shoot E ?cm (gl w))\<rparr>"
  show ?case
  proof (cases k)
    case 0
    with Cons.prems(2) have "fst (shoot E ?cm (gl w)) = Inl e"
      by (cases ds) (simp_all add: shots_Cons del: shots.simps(2))
    with 0 show ?thesis
      by (simp only: capture_loop_step)
         (simp add: prod_eq_iff shots_Cons split: prod.splits sum.splits del: shots.simps(2))
  next
    case (Suc j)
    have len: "length (fst (shots E (snd (shoot E ?cm (gl w)))
                 (map (pose_camera E c (cam w)) (take (Suc j) vs)))) = Suc j"
      using Cons.prems(1) Suc by (simp add: length_shots)
    from Cons.prems(2) Suc have eq:
      "fst (shoot E ?cm (gl w))
         # fst (shots E (snd (shoot E ?cm (gl w))) (map (pose_camera E c (cam w)) (take (Suc j) vs)))
       = map Inr ds @ [Inl e]"
      by (simp add: shots_Cons del: shots.simps(2))
    from eq len obtain d ds' where ds: "ds = d # ds'"
      by (cases ds) auto
    from eq ds have d: "fst (shoot E ?cm (gl w)) = Inr d"
      and rest: "fst (shots E (snd (shoot E ?cm (gl w))) (map (pose_camera E c (cam w)) (take (Suc j) vs)))
                 = map Inr ds' @ [Inl e]"
      by simp_all
    have "capture_loop E c vs ?w (snaps @ [d]) =
            (Inl e,
             ?w\<lparr>cam := pose_camera E c (cam ?w) (vs ! j),
                gl := snd (shots E (gl ?w) (map (pose_camera E c (cam ?w)) (take (Suc j) vs)))\<rparr>)"
    proof (rule Cons.IH)
      show "j < length vs" using Cons.prems(1) Suc by simp
      show "fst (shots E (gl ?w) (map (pose_camera E c (cam ?w)) (take (Suc j) vs)))
            = map Inr ds' @ [Inl e]"
        by (simp add: pose_camera_absorb_fun rest)
    qed
    then have "capture_loop E c vs ?w (snaps @ [d]) =
            (Inl e,
             w\<lparr>cam := pose_camera E c (cam w) ((v # vs) ! k),
               gl := snd (shots E (gl w) (map (pose_camera E c (cam w)) (take (Suc k) (v # vs))))\<rparr>)"
      by (simp add: pose_camera_absorb_fun Suc shots_Cons del: shots.simps(2))
    with d show ?thesis
      by (simp only: capture_loop_step) (simp add: prod_eq_iff split: prod.splits sum.splits)
  qed
qed

lemma capture_loop_Inr:
  "fst (capture_loop E c vs w snaps) = Inr fs \<Longrightarrow>
     \<exists>ds. fs = snaps @ ds \<and>
          fst (shots E (gl w) (map (pose_camera E c (cam w)) vs)) = map Inr ds"
proof (induction vs arbitrary: w snaps)
  case Nil
  then show ?case by simp
next
  case (Cons v vs)
  let ?cm = "pose_camera E c (cam w) v"
  let ?w = "w\<lparr>cam := ?cm, gl := snd (shoot E ?cm (gl w))\<rparr>"
  from Cons.prems obtain d where d: "fst (shoot E ?cm (gl w)) = Inr d"
    and rest: "fst (capture_loop E c vs ?w (snaps @ [d])) = Inr fs"
    by (simp only: capture_loop_step) (auto split: sum.splits prod.splits)
  from Cons.IH [OF rest] obtain ds where "fs = (snaps @ [d]) @ ds"
    and "fst (shots E (gl ?w) (map (pose_camera E c (cam ?w)) vs)) = map Inr ds"
    by auto
  with d show ?case
    by (intro exI [of _ "d # ds"]) (simp add: pose_camera_absorb_fun shots_Cons del: shots.simps(2))
qed

text \<open>The loop does not look at the controller, and carries it along unchanged.\<close>

lemma capture_loop_ctl:
  "cam w' = cam w \<Longrightarrow> gl w' = gl w \<Longrightarrow>
     capture_loop E c vs w' snaps =
       (fst (capture_loop E c vs w snaps), (snd (capture_loop E c vs w snaps))\<lparr>ctl := ctl w'\<rparr>)"
proof (induction vs arbitrary: w w' snaps)
  case Nil
  then show ?case by (cases w, cases w') simp
next
  case (Cons v vs)
  have "capture_loop E c vs (w'\<lparr>cam := cm, gl := g\<rparr>) s =
          (fst (capture_loop E c vs (w\<lparr>cam := cm, gl := g\<rparr>) s),
           (snd (capture_loop E c vs (w\<lparr>cam := cm, gl := g\<rparr>) s))\<lparr>ctl := ctl w'\<rparr>)" for cm g s
    using Cons.IH [of "w'\<lparr>cam := cm, gl := g\<rparr>" "w\<lparr>cam := cm, gl := g\<rparr>" s] by simp
  then show ?case
    by (simp only: capture_loop_step Cons.prems) (simp split: sum.splits prod.splits)
qed

text \<open>
  The loop looks at the camera it starts from only for its field of view: the outcome and
  the renderer's state afterwards are the same from any camera with that field of view.
\<close>

lemma capture_loop_fov_only:
  "fov (cam w') = fov (cam w) \<Longrightarrow> gl w' = gl w \<Longrightarrow>
     fst (capture_loop E c vs w' snaps) = fst (capture_loop E c vs w snaps) \<and>
     gl (snd (capture_loop E c vs w' snaps)) = gl (snd (capture_loop E c vs w snaps))"
proof (induction vs arbitrary: w w' snaps)
  case Nil
  then show ?case by simp
next
  case (Cons v vs)
  have p: "pose_camera E c (cam w') v = pose_camera E c (cam w) v"
    using Cons.prems(1) by (rule pose_camera_fov)
  have "fst (capture_loop E c vs (w'\<lparr>cam := pose_camera E c (cam w) v, gl := g\<rparr>) s)
          = fst (capture_loop E c vs (w\<lparr>cam := pose_camera E c (cam w) v, gl := g\<rparr>) s) \<and>
        gl (snd (capture_loop E c vs (w'\<lparr>cam := pose_camera E c (cam w) v, gl := g\<rparr>) s))
          = gl (snd (capture_loop E c vs (w\<lparr>cam := pose_camera E c (cam w) v, gl := g\<rparr>) s))" for g s
    by (rule Cons.IH) simp_all
  then show ?case
    by (simp only: capture_loop_step p Cons.prems(2)) (simp split: sum.splits prod.splits)
qed

lemma restore_eq:
  "restore E p r u w =
     (let w' = restored E (w\<lparr>cam := (cam w)\<lparr>up := u, position := p, rotation := r\<rparr>\<rparr>);
          x = render E (cam w') (gl w')
      in (case fst x of Inl e \<Rightarrow> Some e | Inr drawn \<Rightarrow> None, w'\<lparr>gl := snd x\<rparr>))"
  by (simp add: restore_def restored_def reenabled_def Let_def
      split: option.splits sum.splits prod.splits)

lemma suspended_eq:
  "suspended w = w\<lparr>ctl := map_option (\<lambda>h. h\<lparr>enabled := False, autoRotate := False\<rparr>) (ctl w)\<rparr>"
  by (simp add: suspended_def split: option.splits)

text \<open>
  One call, in terms of the loop and of the last render: the outcome of the loop stands
  unless the last render throws, and the state is what the cleanup makes of the state the
  call started from, with the renderer as the last render left it.
\<close>

lemma captureMultiViews_eq:
  "captureMultiViews E scene w =
     (let L = capture_loop E (center scene)
                (views (standardDist scene (fov (cam w))) (macroDist scene (fov (cam w)))) w [];
          x = render E (cam (restored E w)) (gl (snd L))
      in (case fst x of Inl e \<Rightarrow> Inl e | Inr drawn \<Rightarrow> fst L, (restored E w)\<lparr>gl := snd x\<rparr>))"
proof -
  let ?vs = "views (standardDist scene (fov (cam w))) (macroDist scene (fov (cam w)))"
  let ?L = "capture_loop E (center scene) ?vs w []"
  define w1 where "w1 = snd (capture_loop E (center scene) ?vs (suspended w) [])"
  have f: "fst (capture_loop E (center scene) ?vs (suspended w) []) = fst ?L"
    and g: "gl w1 = gl (snd ?L)"
    using capture_loop_ctl [of "suspended w" w E "center scene" ?vs "[]"]
    by (simp_all add: suspended_eq w1_def)
  have c: "ctl w1 = ctl (suspended w)" and v: "fov (cam w1) = fov (cam w)"
    using capture_loop_state [of E "center scene" ?vs "suspended w" "[]"]
    by (simp_all add: w1_def suspended_def split: option.splits)
  define w2 where "w2 = restored E (w1\<lparr>cam := (cam w1)\<lparr>up := up (cam w), position := position (cam w),
                                   rotation := rotation (cam w)\<rparr>\<rparr>)"
  have "(cam w1)\<lparr>up := up (cam w), position := position (cam w), rotation := rotation (cam w)\<rparr> = cam w"
    using v by (cases "cam w", cases "cam w1") simp
  then have r: "cam w2 = cam (restored E w)" "ctl w2 = ctl (restored E w)" "gl w2 = gl (snd ?L)"
    using c g
    by (auto simp: w2_def restored_def suspended_def reenabled_def split: option.splits)
  then have r': "w2\<lparr>gl := y\<rparr> = (restored E w)\<lparr>gl := y\<rparr>" for y
    by (cases w2, cases "restored E w") simp
  have "captureMultiViews E scene w =
          (case restore E (position (cam w)) (rotation (cam w)) (up (cam w)) w1 of
             (thrown, w') \<Rightarrow> (case thrown of Some e \<Rightarrow> (Inl e, w')
                              | None \<Rightarrow> (fst (capture_loop E (center scene) ?vs (suspended w) []), w')))"
    by (simp add: captureMultiViews_def Let_def w1_def suspended_def split_beta
        split: option.splits)
  also have "\<dots> = (case fst (render E (cam w2) (gl w2)) of Inl e \<Rightarrow> Inl e | Inr drawn \<Rightarrow> fst ?L,
                    w2\<lparr>gl := snd (render E (cam w2) (gl w2))\<rparr>)"
    by (simp add: restore_eq Let_def f w2_def split: sum.splits)
  finally show ?thesis
    by (simp add: r r' Let_def)
qed

lemma length_poses: "length (poses E scene cm) = 36"
  by (simp add: poses_def length_views)

lemma poses_nth_global:
  "i < 18 \<Longrightarrow> poses E scene cm ! i =
     pose_camera E (center scene) cm
       \<lparr>v_name = o_name (baseOrientations ! i),
        v_offset = multiplyScalar (dir (baseOrientations ! i)) (standardDist scene (fov cm)),
        v_up = o_up (baseOrientations ! i)\<rparr>"
  by (simp add: poses_def length_views views_nth_global)

lemma poses_nth_local:
  "i < 18 \<Longrightarrow> poses E scene cm ! (18 + i) =
     pose_camera E (center scene) cm
       \<lparr>v_name = o_name (baseOrientations ! i) @ '' Detail'',
        v_offset = multiplyScalar (dir (baseOrientations ! i)) (macroDist scene (fov cm)),
        v_up = o_up (baseOrientations ! i)\<rparr>"
  by (simp add: poses_def length_views views_nth_local)

lemma capture_result:
  "fst (captureMultiViews E scene w) =
     (case fst (render E (cam (restored E w))
                  (gl (snd (capture_loop E (center scene)
                     (views (standardDist scene (fov (cam w))) (macroDist scene (fov (cam w)))) w [])))) of
        Inl e \<Rightarrow> Inl e
      | Inr drawn \<Rightarrow> fst (capture_loop E (center scene)
                          (views (standardDist scene (fov (cam w))) (macroDist scene (fov (cam w)))) w []))"
  by (simp add: captureMultiViews_eq Let_def)

lemma capture_state:
  "snd (captureMultiViews E scene w) =
     (restored E w)\<lparr>gl := snd (render E (cam (restored E w))
                  (gl (snd (capture_loop E (center scene)
                     (views (standardDist scene (fov (cam w))) (macroDist scene (fov (cam w)))) w []))))\<rparr>"
  by (simp add: captureMultiViews_eq Let_def)

lemma capture_cam_ctl:
  "cam (snd (captureMultiViews E scene w)) = cam (restored E w)"
  "ctl (snd (captureMultiViews E scene w)) = ctl (restored E w)"
  by (simp_all add: capture_state)

lemma capture_Inr:
  assumes "fst (captureMultiViews E scene w) = Inr frames"
  shows "map Inr frames = fst (shots E (gl w) (poses E scene (cam w)))"
proof -
  from assms have "fst (capture_loop E (center scene)
      (views (standardDist scene (fov (cam w))) (macroDist scene (fov (cam w)))) w []) = Inr frames"
    by (simp add: capture_result split: sum.splits)
  from capture_loop_Inr [OF this] show ?thesis
    by (auto simp: poses_def)
qed

lemma capture_Inr_length: "fst (captureMultiViews E scene w) = Inr frames \<Longrightarrow> length frames = 36"
  using capture_Inr [of E scene w frames] length_shots [of E "gl w" "poses E scene (cam w)"]
  by (metis length_map length_poses)

text \<open>
  Claim C1. A call that returns, returns 36 frames, frame \<open>i\<close> being the encoded render of
  pose \<open>i\<close>, shot in that order. The 36 poses come from the 18 entries of the table:
  pose \<open>i\<close> of the first 18 stands at the standard distance along direction \<open>i\<close> of the
  table, pose \<open>18 + i\<close> at the macro distance along the same direction, both with the
  up-vector of entry \<open>i\<close>.
\<close>

theorem capture_returns_36_frames:
  assumes "fst (captureMultiViews E scene w) = Inr frames"
  shows "length frames = 36 \<and> length (poses E scene (cam w)) = 36 \<and> length baseOrientations = 18 \<and>
         map Inr frames = fst (shots E (gl w) (poses E scene (cam w))) \<and>
         (\<forall>i<18.
            position (poses E scene (cam w) ! i)
              = vadd (center scene)
                  (multiplyScalar (dir (baseOrientations ! i)) (standardDist scene (fov (cam w)))) \<and>
            up (poses E scene (cam w) ! i) = o_up (baseOrientations ! i) \<and>
            position (poses E scene (cam w) ! (18 + i))
              = vadd (center scene)
                  (multiplyScalar (dir (baseOrientations ! i)) (macroDist scene (fov (cam w)))) \<and>
            up (poses E scene (cam w) ! (18 + i)) = o_up (baseOrientations ! i))"
  using capture_Inr [OF assms] capture_Inr_length [OF assms]
  by (simp add: length_poses length_baseOrientations poses_nth_global poses_nth_local
      pose_camera_fields)

lemma shots_still:
  "shots still_env g cms = (replicate (length cms) (Inr ''data:image/jpeg''), g)"
  by (induction cms arbitrary: g) (simp_all add: shoot_def still_env_def)

lemma shots_orbit:
  "shots orbit_env g cms = (replicate (length cms) (Inr ''data:image/jpeg''), g)"
  by (induction cms arbitrary: g) (simp_all add: shoot_def orbit_env_def)

lemma still_env_ok:
  "fst (captureMultiViews still_env scene w) = Inr (replicate 36 ''data:image/jpeg'')"
proof -
  have "capture_loop still_env c vs w [] =
          (Inr ([] @ replicate (length vs) ''data:image/jpeg''),
           w\<lparr>cam := last (cam w # map (pose_camera still_env c (cam w)) vs),
             gl := snd (shots still_env (gl w) (map (pose_camera still_env c (cam w)) vs))\<rparr>)" for c vs
    by (rule capture_loop_ok) (simp add: shots_still)
  then have l: "fst (capture_loop still_env c vs w []) = Inr (replicate (length vs) ''data:image/jpeg'')"
    for c vs
    by simp
  have r: "fst (render still_env cm g) = Inr cm" for cm g
    by (simp add: still_env_def)
  show ?thesis
    by (simp add: capture_result r l length_views)
qed

lemma orbit_env_ok:
  "fst (captureMultiViews orbit_env scene w) = Inr (replicate 36 ''data:image/jpeg'')"
proof -
  have "capture_loop orbit_env c vs w [] =
          (Inr ([] @ replicate (length vs) ''data:image/jpeg''),
           w\<lparr>cam := last (cam w # map (pose_camera orbit_env c (cam w)) vs),
             gl := snd (shots orbit_env (gl w) (map (pose_camera orbit_env c (cam w)) vs))\<rparr>)" for c vs
    by (rule capture_loop_ok) (simp add: shots_orbit)
  then have l: "fst (capture_loop orbit_env c vs w []) = Inr (replicate (length vs) ''data:image/jpeg'')"
    for c vs
    by simp
  have r: "fst (render orbit_env cm g) = Inr cm" for cm g
    by (simp add: orbit_env_def)
  show ?thesis
    by (simp add: capture_result r l length_views)
qed

theorem capture_returns_36_frames_witness:
  "fst (captureMultiViews still_env bare_scene w0) = Inr (replicate 36 ''data:image/jpeg'') \<and>
   length (replicate 36 ''data:image/jpeg'') = 36 \<and>
   length (poses still_env bare_scene (cam w0)) = 36 \<and>
   map Inr (replicate 36 ''data:image/jpeg'')
     = fst (shots still_env (gl w0) (poses still_env bare_scene (cam w0)))"
  using capture_returns_36_frames [OF still_env_ok [of bare_scene w0]] still_env_ok [of bare_scene w0]
  by simp

text \<open>
  Claim C2, as stated, fails when a controller is attached whose update moves the camera:
  the \<^verbatim>\<open>finally\<close> block copies the snapshot back and then calls the controller's
  \<^verbatim>\<open>update()\<close> with auto-rotation switched on. With the orbit controller the camera
  ends 100 units away from where it was.
\<close>

theorem camera_restore_counterexample:
  "\<not> \<bar>vz (position (cam (snd (captureMultiViews orbit_env bare_scene w0)))) - vz (position (cam w0))\<bar>
       \<le> 1 / 10 ^ 6"
  by (simp add: capture_cam_ctl restored_def reenabled_def w0_def orbit_env_def)

text \<open>
  Claim C2, amended. After every call, returned or thrown, the controller (if any) is enabled
  with auto-rotation on, and the camera is what the controller's update makes of the
  camera of the snapshot; it is the camera of the snapshot itself when no controller is
  attached or when that update leaves it unchanged. The snapshot is held by value: the
  poses applied in between do not show in the result.
\<close>

theorem capture_restores:
  "ctl (snd (captureMultiViews E scene w)) = map_option reenabled (ctl w) \<and>
   cam (snd (captureMultiViews E scene w))
     = (case ctl w of None \<Rightarrow> cam w | Some h \<Rightarrow> update E (reenabled h) (cam w)) \<and>
   (ctl w = None \<or> (\<exists>h. ctl w = Some h \<and> update E (reenabled h) (cam w) = cam w)
      \<longrightarrow> cam (snd (captureMultiViews E scene w)) = cam w)"
  by (auto simp: capture_cam_ctl restored_def split: option.splits)

theorem capture_restores_witness:
  "ctl w_free = None \<and>
   ctl (snd (captureMultiViews lost_env cube_scene w_free)) = None \<and>
   cam (snd (captureMultiViews lost_env cube_scene w_free)) = cam w_free \<and>
   ctl w0 = Some \<lparr>enabled = True, autoRotate = True\<rparr> \<and>
   update still_env (reenabled \<lparr>enabled = True, autoRotate = True\<rparr>) (cam w0) = cam w0 \<and>
   ctl (snd (captureMultiViews still_env cube_scene w0)) = Some \<lparr>enabled = True, autoRotate = True\<rparr> \<and>
   cam (snd (captureMultiViews still_env cube_scene w0)) = cam w0"
proof -
  have a: "ctl w_free = None" by (simp add: w_free_def)
  have b: "ctl w0 = Some \<lparr>enabled = True, autoRotate = True\<rparr>" by (simp add: w0_def)
  have c: "update still_env (reenabled \<lparr>enabled = True, autoRotate = True\<rparr>) (cam w0) = cam w0"
    by (simp add: still_env_def)
  from capture_restores [of lost_env cube_scene w_free] capture_restores [of still_env cube_scene w0]
    a b c
  show ?thesis by (simp add: reenabled_def)
qed

subsection \<open>Failure at a pose\<close>

lemma capture_loop_fail_poses:
  assumes "k < 36"
    and "fst (shots E (gl w) (take (Suc k) (poses E scene (cam w)))) = map Inr ds @ [Inl e]"
  shows "capture_loop E (center scene)
           (views (standardDist scene (fov (cam w))) (macroDist scene (fov (cam w)))) w []
         = (Inl e, w\<lparr>cam := poses E scene (cam w) ! k,
                     gl := snd (shots E (gl w) (take (Suc k) (poses E scene (cam w))))\<rparr>)"
proof -
  let ?vs = "views (standardDist scene (fov (cam w))) (macroDist scene (fov (cam w)))"
  have t: "take (Suc k) (poses E scene (cam w))
           = map (pose_camera E (center scene) (cam w)) (take (Suc k) ?vs)"
    by (simp add: poses_def take_map)
  have n: "poses E scene (cam w) ! k = pose_camera E (center scene) (cam w) (?vs ! k)"
    using assms(1) by (simp add: poses_def length_views)
  have "capture_loop E (center scene) ?vs w []
        = (Inl e, w\<lparr>cam := pose_camera E (center scene) (cam w) (?vs ! k),
                    gl := snd (shots E (gl w)
                            (map (pose_camera E (center scene) (cam w)) (take (Suc k) ?vs)))\<rparr>)"
  proof (rule capture_loop_fail [where ds = ds])
    show "k < length ?vs" using assms(1) by (simp add: length_views)
    show "fst (shots E (gl w) (map (pose_camera E (center scene) (cam w)) (take (Suc k) ?vs)))
          = map Inr ds @ [Inl e]"
      using assms(2) by (simp only: t)
  qed
  then show ?thesis by (simp only: t n)
qed

text \<open>
  Claim C3, amended. Poses are counted from 0. If shooting the poses in order gives a frame
  for each pose before pose \<open>k\<close> and throws at pose \<open>k\<close>, at the render or at the encoding,
  then the loop ends there: the camera stands at pose \<open>k\<close> and the renderer is as the shot
  at pose \<open>k\<close> left it, so the poses after \<open>k\<close> are neither applied nor rendered. The call
  throws and returns no frame; the cleanup runs on that state, with one more render; and
  the exception is the one of pose \<open>k\<close> unless that last render throws too, whose exception
  then takes its place. A call that returns, returns 36 frames.
\<close>

theorem capture_all_or_nothing:
  "(k < 36 \<and>
    fst (shots E (gl w) (take (Suc k) (poses E scene (cam w)))) = map Inr ds @ [Inl e]
    \<longrightarrow> (let g = snd (shots E (gl w) (take (Suc k) (poses E scene (cam w))));
              last_render = render E (cam (restored E w)) g
          in capture_loop E (center scene)
               (views (standardDist scene (fov (cam w))) (macroDist scene (fov (cam w)))) w []
               = (Inl e, w\<lparr>cam := poses E scene (cam w) ! k, gl := g\<rparr>) \<and>
             fst (captureMultiViews E scene w)
               = Inl (case fst last_render of Inl e' \<Rightarrow> e' | Inr drawn \<Rightarrow> e) \<and>
             snd (captureMultiViews E scene w) = (restored E w)\<lparr>gl := snd last_render\<rparr>)) \<and>
   (fst (captureMultiViews E scene w) = Inr fs \<longrightarrow> length fs = 36)"
proof (intro conjI impI)
  assume a: "k < 36 \<and>
    fst (shots E (gl w) (take (Suc k) (poses E scene (cam w)))) = map Inr ds @ [Inl e]"
  then have l: "capture_loop E (center scene)
           (views (standardDist scene (fov (cam w))) (macroDist scene (fov (cam w)))) w []
         = (Inl e, w\<lparr>cam := poses E scene (cam w) ! k,
                     gl := snd (shots E (gl w) (take (Suc k) (poses E scene (cam w))))\<rparr>)"
    by (intro capture_loop_fail_poses) simp_all
  show "let g = snd (shots E (gl w) (take (Suc k) (poses E scene (cam w))));
            last_render = render E (cam (restored E w)) g
        in capture_loop E (center scene)
             (views (standardDist scene (fov (cam w))) (macroDist scene (fov (cam w)))) w []
             = (Inl e, w\<lparr>cam := poses E scene (cam w) ! k, gl := g\<rparr>) \<and>
           fst (captureMultiViews E scene w)
             = Inl (case fst last_render of Inl e' \<Rightarrow> e' | Inr drawn \<Rightarrow> e) \<and>
           snd (captureMultiViews E scene w) = (restored E w)\<lparr>gl := snd last_render\<rparr>"
    by (simp add: Let_def capture_result capture_state l split: sum.splits)
next
  assume "fst (captureMultiViews E scene w) = Inr fs"
  then show "length fs = 36" by (rule capture_Inr_length)
qed

lemma take_4: "4 \<le> length xs \<Longrightarrow> take 4 xs = [xs ! 0, xs ! 1, xs ! 2, xs ! 3]"
proof -
  assume "4 \<le> length xs"
  then obtain a b c d ys where "xs = a # b # c # d # ys"
    by (cases xs; cases "tl xs"; cases "tl (tl xs)"; cases "tl (tl (tl xs))") auto
  then show ?thesis by simp
qed

lemma point_scene_dists:
  "center point_scene = Vec3 0 0 0" "standardDist point_scene f = 0" "macroDist point_scene f = 0"
  by (simp_all add: center_def standardDist_def macroDist_def fitDistance_def exactFitDist_def
      targetMesh_def point_scene_def getCenter_def getSize_def isEmpty_def vadd_def vsub_def
      multiplyScalar_def Math_max_def)

lemma point_scene_poses_coincide:
  "poses E point_scene cm ! 3 = poses E point_scene cm ! 2"
proof -
  have "poses E point_scene cm ! 3 = pose_camera E (Vec3 0 0 0) cm
          \<lparr>v_name = ''Back'', v_offset = Vec3 0 0 0, v_up = Vec3 0 1 0\<rparr>"
    using poses_nth_global [of 3 E point_scene cm]
    by (simp add: point_scene_dists multiplyScalar_def) (simp add: baseOrientations_def)
  moreover have "poses E point_scene cm ! 2 = pose_camera E (Vec3 0 0 0) cm
          \<lparr>v_name = ''Front'', v_offset = Vec3 0 0 0, v_up = Vec3 0 1 0\<rparr>"
    using poses_nth_global [of 2 E point_scene cm]
    by (simp add: point_scene_dists multiplyScalar_def) (simp add: baseOrientations_def)
  ultimately show ?thesis by (simp add: pose_camera_def)
qed

lemma fourth_fails_shots:
  "shots fourth_fails_env 0 [a, b, c, d] =
     ([Inr ''data:image/jpeg'', Inr ''data:image/jpeg'', Inr ''data:image/jpeg'',
       Inl (Exn ''render failed'')], 4)"
  by (simp add: shoot_def fourth_fails_env_def)

theorem capture_all_or_nothing_witness:
  "(3::nat) < 36 \<and>
   poses fourth_fails_env point_scene (cam w_count) ! 3
     = poses fourth_fails_env point_scene (cam w_count) ! 2 \<and>
   fst (shots fourth_fails_env (gl w_count) (take (Suc 3) (poses fourth_fails_env point_scene (cam w_count))))
     = map Inr [''data:image/jpeg'', ''data:image/jpeg'', ''data:image/jpeg'']
       @ [Inl (Exn ''render failed'')] \<and>
   fst (captureMultiViews fourth_fails_env point_scene w_count) = Inl (Exn ''render failed'') \<and>
   cam (snd (capture_loop fourth_fails_env (center point_scene)
          (views (standardDist point_scene (fov (cam w_count)))
                 (macroDist point_scene (fov (cam w_count)))) w_count []))
     = poses fourth_fails_env point_scene (cam w_count) ! 3 \<and>
   gl (snd (capture_loop fourth_fails_env (center point_scene)
          (views (standardDist point_scene (fov (cam w_count)))
                 (macroDist point_scene (fov (cam w_count)))) w_count [])) = 4 \<and>
   snd (captureMultiViews fourth_fails_env point_scene w_count) = w_count\<lparr>gl := 5\<rparr> \<and>
   fst (captureMultiViews still_env bare_scene w0) = Inr (replicate 36 ''data:image/jpeg'') \<and>
   length (replicate 36 ''data:image/jpeg'') = 36"
proof -
  let ?ps = "poses fourth_fails_env point_scene (cam w_count)"
  have t: "take (Suc 3) ?ps = [?ps ! 0, ?ps ! 1, ?ps ! 2, ?ps ! 3]"
    using take_4 [of ?ps] by (simp add: length_poses eval_nat_numeral)
  have g: "gl w_count = 0" by (simp add: w_count_def)
  have s: "shots fourth_fails_env (gl w_count) (take (Suc 3) ?ps) =
     ([Inr ''data:image/jpeg'', Inr ''data:image/jpeg'', Inr ''data:image/jpeg'',
       Inl (Exn ''render failed'')], 4)"
    by (simp only: t g fourth_fails_shots)
  have h: "fst (shots fourth_fails_env (gl w_count) (take (Suc 3) ?ps))
           = map Inr [''data:image/jpeg'', ''data:image/jpeg'', ''data:image/jpeg'']
             @ [Inl (Exn ''render failed'')]"
    unfolding s by simp
  have r: "restored fourth_fails_env w_count = w_count"
    by (simp add: restored_def reenabled_def w_count_def fourth_fails_env_def)
  have f: "render fourth_fails_env cm 4 = (Inr cm, 5)" for cm
    by (simp add: fourth_fails_env_def)
  have k: "(3::nat) < 36" by simp
  from capture_all_or_nothing [of 3 fourth_fails_env w_count point_scene
      "[''data:image/jpeg'', ''data:image/jpeg'', ''data:image/jpeg'']" "Exn ''render failed''"]
    k h
  have 1: "capture_loop fourth_fails_env (center point_scene)
             (views (standardDist point_scene (fov (cam w_count)))
                    (macroDist point_scene (fov (cam w_count)))) w_count []
           = (Inl (Exn ''render failed''), w_count\<lparr>cam := ?ps ! 3, gl := 4\<rparr>) \<and>
          fst (captureMultiViews fourth_fails_env point_scene w_count) = Inl (Exn ''render failed'') \<and>
          snd (captureMultiViews fourth_fails_env point_scene w_count) = w_count\<lparr>gl := 5\<rparr>"
    unfolding Let_def s r by (simp add: f)
  have 2: "length (replicate 36 ''data:image/jpeg'') = 36"
    using capture_all_or_nothing [of 0 still_env w0 bare_scene "[]" "Exn []"
        "replicate 36 ''data:image/jpeg''"]
      still_env_ok [of bare_scene w0]
    by blast
  from 1 2 h k point_scene_poses_coincide [of fourth_fails_env "cam w_count"]
    still_env_ok [of bare_scene w0]
  show ?thesis by simp
qed

lemma center_bare: "center bare_scene = Vec3 0 0 0"
  and standard_bare: "standardDist bare_scene f = 160"
  and macro_bare: "macroDist bare_scene f = 55"
  by (simp_all add: center_def standardDist_def macroDist_def fitDistance_def targetMesh_def
      bare_scene_def)

lemma poses_bare_position: "position (poses E bare_scene cm ! 0) = Vec3 0 160 0"
  using poses_nth_global [of 0 E bare_scene cm]
  by (simp add: pose_camera_fields center_bare standard_bare dir_top vadd_def multiplyScalar_def)

text \<open>
  Claim C3, as stated, fails on the exception that reaches the caller: with a renderer that
  throws at every camera, the first pose throws one exception and the call ends with the
  other, thrown by the render at the end of \<^verbatim>\<open>finally\<close>.
\<close>

theorem original_error_counterexample:
  "fst (shoot lost_env (poses lost_env bare_scene (cam w0) ! 0) (gl w0))
     = Inl (Exn ''lost at a capture pose'') \<and>
   fst (captureMultiViews lost_env bare_scene w0) \<noteq> Inl (Exn ''lost at a capture pose'') \<and>
   fst (captureMultiViews lost_env bare_scene w0) = Inl (Exn ''lost at the viewer pose'')"
proof -
  have r: "cam (restored lost_env w0) = cam w0"
    by (simp add: restored_def reenabled_def w0_def lost_env_def)
  have "fst (render lost_env (cam w0) g) = Inl (Exn ''lost at the viewer pose'')" for g
    by (simp add: lost_env_def w0_def)
  then have "fst (captureMultiViews lost_env bare_scene w0) = Inl (Exn ''lost at the viewer pose'')"
    by (simp add: capture_result r)
  moreover have "fst (shoot lost_env (poses lost_env bare_scene (cam w0) ! 0) (gl w0))
                 = Inl (Exn ''lost at a capture pose'')"
    by (simp add: shoot_def poses_bare_position) (simp add: lost_env_def poses_bare_position)
  ultimately show ?thesis by simp
qed

subsection \<open>Scenes without a target, and calling twice\<close>





lemma poses_fov:
  assumes "fov cm' = fov cm"
  shows "poses E scene cm' = poses E scene cm"
proof -
  have "pose_camera E c cm' = pose_camera E c cm" for c
    by (rule ext) (rule pose_camera_fov [OF assms])
  then show ?thesis by (simp add: poses_def assms)
qed

lemma restored_idem:
  assumes "ctl w = None \<or> (\<forall>h cm. update E h cm = cm)"
  shows "cam (restored E w) = cam w"
    and "ctl (restored E (restored E w)) = ctl (restored E w)"
    and "cam (restored E (restored E w)) = cam w"
  using assms by (auto simp: restored_def reenabled_def split: option.splits)

lemma unit_world_eq: "(w :: unit world) = w' \<longleftrightarrow> cam w = cam w' \<and> ctl w = ctl w'"
  by (cases w, cases w') auto

text \<open>
  Claim C9, amended. The renderer is a deterministic one (its state is \<open>unit\<close>). The 36
  cameras handed to the renderer depend on the camera the call starts from only through its
  field of view, so two calls on the same scene show the same poses, and if both return
  they return the same frames. When no controller is attached, or the controller's update
  leaves the camera unchanged, a second call made right after the first returns what the
  first returned and leaves the state the first left.
\<close>

theorem capture_twice:
  fixes E :: "(unit, 'c) three"
  shows
  "(fov (cam w') = fov (cam w) \<longrightarrow> poses E scene (cam w') = poses E scene (cam w)) \<and>
   (fov (cam w') = fov (cam w) \<and> fst (captureMultiViews E scene w) = Inr fs \<and>
    fst (captureMultiViews E scene w') = Inr fs' \<longrightarrow> fs' = fs) \<and>
   (ctl w = None \<or> (\<forall>h cm. update E h cm = cm)
      \<longrightarrow> captureMultiViews E scene (snd (captureMultiViews E scene w)) = captureMultiViews E scene w)"
proof (intro conjI impI)
  assume "fov (cam w') = fov (cam w)"
  then show "poses E scene (cam w') = poses E scene (cam w)" by (rule poses_fov)
next
  assume a: "fov (cam w') = fov (cam w) \<and> fst (captureMultiViews E scene w) = Inr fs \<and>
    fst (captureMultiViews E scene w') = Inr fs'"
  from a have 1: "map Inr fs = fst (shots E (gl w) (poses E scene (cam w)))"
    by (intro capture_Inr) simp
  from a have 2: "map Inr fs' = fst (shots E (gl w') (poses E scene (cam w')))"
    by (intro capture_Inr) simp
  from a have 3: "poses E scene (cam w') = poses E scene (cam w)"
    by (intro poses_fov) simp
  have 4: "gl w' = gl w" by simp
  have "map (Inr :: string \<Rightarrow> exn + string) fs' = map Inr fs"
    by (simp only: 1 2 3 4)
  then show "fs' = fs" by (simp add: inj_map_eq_map)
next
  assume a: "ctl w = None \<or> (\<forall>h cm. update E h cm = cm)"
  let ?w1 = "snd (captureMultiViews E scene w)"
  have c: "cam ?w1 = cam w" and k: "ctl ?w1 = ctl (restored E w)"
    using restored_idem(1) [OF a] by (simp_all add: capture_cam_ctl)
  have a1: "ctl ?w1 = None \<or> (\<forall>h cm. update E h cm = cm)"
    using a k by (auto simp: restored_def)
  have r: "cam (restored E ?w1) = cam (restored E w)" "ctl (restored E ?w1) = ctl (restored E w)"
    using restored_idem(1) [OF a1] restored_idem(1,2) [OF a] c k
    by (auto simp: restored_def split: option.splits)
  have l: "fst (capture_loop E (center scene) vs ?w1 []) = fst (capture_loop E (center scene) vs w [])"
    for vs
    using capture_loop_fov_only [of ?w1 w E "center scene" vs "[]"] c by simp
  have g: "(x :: unit) = y" for x y by simp
  have "fst (captureMultiViews E scene ?w1) = fst (captureMultiViews E scene w)"
    unfolding capture_result [of E scene ?w1] capture_result [of E scene w] c r l
    using g [of "gl (snd (capture_loop E (center scene)
                 (views (standardDist scene (fov (cam w))) (macroDist scene (fov (cam w)))) ?w1 []))"
               "gl (snd (capture_loop E (center scene)
                 (views (standardDist scene (fov (cam w))) (macroDist scene (fov (cam w)))) w []))"]
    by simp
  moreover have "snd (captureMultiViews E scene ?w1) = snd (captureMultiViews E scene w)"
    by (simp add: unit_world_eq capture_cam_ctl r)
  ultimately show "captureMultiViews E scene ?w1 = captureMultiViews E scene w"
    by (simp add: prod_eq_iff)
qed

theorem capture_twice_witness:
  "fov (cam (snd (captureMultiViews orbit_env cube_scene w0))) = fov (cam w0) \<and>
   poses orbit_env cube_scene (cam (snd (captureMultiViews orbit_env cube_scene w0)))
     = poses orbit_env cube_scene (cam w0) \<and>
   fst (captureMultiViews orbit_env cube_scene w0) = Inr (replicate 36 ''data:image/jpeg'') \<and>
   fst (captureMultiViews orbit_env cube_scene (snd (captureMultiViews orbit_env cube_scene w0)))
     = Inr (replicate 36 ''data:image/jpeg'') \<and>
   (\<forall>h cm. update still_env h cm = cm) \<and>
   captureMultiViews still_env cube_scene (snd (captureMultiViews still_env cube_scene w0))
     = captureMultiViews still_env cube_scene w0 \<and>
   ctl w_free = None \<and>
   captureMultiViews orbit_env cube_scene (snd (captureMultiViews orbit_env cube_scene w_free))
     = captureMultiViews orbit_env cube_scene w_free"
proof -
  let ?w1 = "snd (captureMultiViews orbit_env cube_scene w0)"
  have a: "fov (cam ?w1) = fov (cam w0)"
    by (simp add: capture_cam_ctl restored_def reenabled_def w0_def orbit_env_def)
  have b: "\<forall>h cm. update still_env h cm = cm" by (simp add: still_env_def)
  have c: "ctl w_free = None" by (simp add: w_free_def)
  have o: "fst (captureMultiViews orbit_env cube_scene w) = Inr (replicate 36 ''data:image/jpeg'')" for w
    by (rule orbit_env_ok)
  have 1: "poses orbit_env cube_scene (cam ?w1) = poses orbit_env cube_scene (cam w0)"
    using capture_twice [of ?w1 w0 orbit_env cube_scene, THEN conjunct1] a by (rule mp)
  have h: "fov (cam ?w1) = fov (cam w0) \<and>
           fst (captureMultiViews orbit_env cube_scene w0) = Inr (replicate 36 ''data:image/jpeg'') \<and>
           fst (captureMultiViews orbit_env cube_scene ?w1) = Inr (replicate 36 ''data:image/jpeg'')"
    using a o [of w0] o [of ?w1] by (intro conjI)
  have same: "replicate 36 ''data:image/jpeg'' = replicate 36 ''data:image/jpeg''"
    using capture_twice [of ?w1 w0 orbit_env cube_scene "replicate 36 ''data:image/jpeg''"
        "replicate 36 ''data:image/jpeg''", THEN conjunct2, THEN conjunct1] h
    by (rule mp)
  have 2: "captureMultiViews still_env cube_scene (snd (captureMultiViews still_env cube_scene w0))
     = captureMultiViews still_env cube_scene w0"
    using capture_twice [of w0 w0 still_env cube_scene, THEN conjunct2, THEN conjunct2] b by simp
  have 3: "captureMultiViews orbit_env cube_scene (snd (captureMultiViews orbit_env cube_scene w_free))
     = captureMultiViews orbit_env cube_scene w_free"
    using capture_twice [of w0 w_free orbit_env cube_scene, THEN conjunct2, THEN conjunct2] c by simp
  from a b c 1 2 3 h same show ?thesis by simp
qed

lemma orbit_twice:
  "position (cam (restored orbit_env w0)) = Vec3 50 50 (-50)"
  "position (cam (restored orbit_env (snd (captureMultiViews orbit_env bare_scene w0))))
     = Vec3 (-50) 50 (-50)"
proof -
  have u: "update orbit_env (reenabled h) cm
             = cm\<lparr>position := Vec3 (vz (position cm)) (vy (position cm)) (- vx (position cm))\<rparr>" for h cm
    by (simp add: orbit_env_def reenabled_def)
  have c: "ctl w0 = Some \<lparr>enabled = True, autoRotate = True\<rparr>"
    and p: "position (cam w0) = Vec3 50 50 50"
    by (simp_all add: w0_def)
  show 1: "position (cam (restored orbit_env w0)) = Vec3 50 50 (-50)"
    by (simp add: restored_def c u p)
  have "ctl (restored orbit_env w0) = Some (reenabled \<lparr>enabled = True, autoRotate = True\<rparr>)"
    by (simp add: restored_def c)
  then show "position (cam (restored orbit_env (snd (captureMultiViews orbit_env bare_scene w0))))
     = Vec3 (-50) 50 (-50)"
    using 1 by (simp add: restored_def capture_cam_ctl u)
qed

text \<open>
  Claim C9, as stated, fails on the camera left behind: with the orbit controller attached,
  each call ends with one more update of the controller, and the camera after the second
  call is not the camera after the first.
\<close>

theorem second_call_counterexample:
  "cam (snd (captureMultiViews orbit_env bare_scene (snd (captureMultiViews orbit_env bare_scene w0))))
     \<noteq> cam (snd (captureMultiViews orbit_env bare_scene w0))"
proof
  assume "cam (snd (captureMultiViews orbit_env bare_scene (snd (captureMultiViews orbit_env bare_scene w0))))
     = cam (snd (captureMultiViews orbit_env bare_scene w0))"
  then have "position (cam (restored orbit_env (snd (captureMultiViews orbit_env bare_scene w0))))
             = position (cam (restored orbit_env w0))"
    by (simp only: capture_cam_ctl)
  then show False by (simp only: orbit_twice) simp
qed

end
